theory Spec2Isabelle
  imports Main
begin

section \<open>Runtime faults\<close>

text \<open>
  A Go runtime panic is a value of the model. \<open>IndexOutOfRange\<close> is the panic of an
  index expression \<open>s[i]\<close> with \<open>i\<close> outside \<open>0 .. len(s)-1\<close>;
  \<open>InvalidWriteHeaderCode\<close> is the panic of net/http's \<open>WriteHeader\<close> on a status
  code outside \<open>100 .. 999\<close>.
\<close>

datatype panic = IndexOutOfRange | InvalidWriteHeaderCode

text \<open>The index expression \<open>xs[i]\<close> of Go on a slice, with its bounds check.\<close>

definition index :: "'a list \<Rightarrow> int \<Rightarrow> panic + 'a" where
  "index xs i = (if 0 \<le> i \<and> i < int (length xs) then Inr (xs ! nat i) else Inl IndexOutOfRange)"


section \<open>Processors and entries (processor chain)\<close>

text \<open>
  \<open>DefaultProcessor\<close> is the struct every processor embeds (\<open>fnProc\<close>, \<open>CgiProcessor\<close>,
  \<open>DbTx\<close>, \<open>WSProcessor\<close>); none of them overrides \<open>SetTimeout\<close>, \<open>GetTimeout\<close>,
  \<open>Then\<close> or \<open>getnext\<close>. Processors are heap objects linked through \<open>next\<close>, so the
  heap is explicit: an address holds a processor, \<open>nextp\<close> is the \<open>next\<close> pointer
  (\<open>None\<close> for nil).
\<close>

type_synonym addr = nat

record DefaultProcessor =
  name :: string
  timeout :: int
  nextp :: "addr option"

type_synonym heap = "addr \<Rightarrow> DefaultProcessor"

definition GetTimeout :: "DefaultProcessor \<Rightarrow> int" where
  "GetTimeout self = timeout self"

definition SetTimeout :: "int \<Rightarrow> DefaultProcessor \<Rightarrow> DefaultProcessor" where
  "SetTimeout i self = (if i > 0 then self\<lparr>timeout := i\<rparr> else self)"

definition getnext :: "DefaultProcessor \<Rightarrow> addr option" where
  "getnext self = nextp self"

text \<open>
  The loop of \<open>BaseEntry.SetTimeout\<close>:
  \<open>for p := self.proc; p != nil; p = p.getnext() { p.SetTimeout(i) }\<close>.
  On a cyclic chain it does not return, hence the option result.
\<close>

partial_function (option) set_timeout_loop :: "int \<Rightarrow> addr option \<Rightarrow> heap \<Rightarrow> heap option" where
  "set_timeout_loop i p h =
     (case p of
        None \<Rightarrow> Some h
      | Some a \<Rightarrow>
          set_timeout_loop i (getnext (SetTimeout i (h a))) (h(a := SetTimeout i (h a))))"

record BaseEntry =
  ename :: string
  proc :: "addr option"
  debug :: bool

definition BaseEntry_SetTimeout :: "int \<Rightarrow> BaseEntry \<Rightarrow> heap \<Rightarrow> heap option" where
  "BaseEntry_SetTimeout i self h = (if i > 0 then set_timeout_loop i (proc self) h else Some h)"

text \<open>The branch of \<open>CgiProcessor.Process\<close> that binds the subprocess to a deadline.\<close>

definition deadline_bound :: "DefaultProcessor \<Rightarrow> bool" where
  "deadline_bound self = (GetTimeout self > 0)"


section \<open>Response sink and request context\<close>

text \<open>
  The outcome of one \<open>Write\<close> is an input of the model: it succeeds, or it fails after
  delivering the first \<open>k\<close> bytes.
\<close>

datatype write_result = WriteOk | WriteErr nat

text \<open>
  What the client receives through \<open>http.ResponseWriter\<close>: the status line (written
  once, by the first \<open>WriteHeader\<close> with a final code or implicitly with status 200 by
  the first \<open>Write\<close>), the informational responses sent before it, and the body
  bytes. \<open>res_info\<close> records the informational responses, \<open>res_sets\<close> the calls
  \<open>Header().Set(name, val)\<close> and \<open>res_writes\<close> the calls \<open>Write(b)\<close> with their
  outcomes, each in order; \<open>res_body\<close> is the body the client has received.
\<close>

record response =
  res_status :: "int option"
  res_info :: "int list"
  res_sets :: "(string \<times> string) list"
  res_writes :: "(string \<times> write_result) list"

definition Header_Set :: "string \<Rightarrow> string \<Rightarrow> response \<Rightarrow> response" where
  "Header_Set k v w = w\<lparr>res_sets := res_sets w @ [(k, v)]\<rparr>"

text \<open>
  \<open>WriteHeader\<close> of net/http: nothing once the status line is out; a panic on a code
  outside \<open>100 .. 999\<close>; a code in \<open>100 .. 199\<close> other than 101 goes out as an
  informational response and the status stays open; any other code is the status of
  the response.
\<close>

definition WriteHeader :: "int \<Rightarrow> response \<Rightarrow> panic + response" where
  "WriteHeader code w =
     (case res_status w of
        Some _ \<Rightarrow> Inr w
      | None \<Rightarrow>
          if code < 100 \<or> code > 999 then Inl InvalidWriteHeaderCode
          else if 100 \<le> code \<and> code \<le> 199 \<and> code \<noteq> 101 then
            Inr (w\<lparr>res_info := res_info w @ [code]\<rparr>)
          else Inr (w\<lparr>res_status := Some code\<rparr>))"

definition delivered :: "string \<times> write_result \<Rightarrow> string" where
  "delivered = (\<lambda>(b, r). case r of WriteOk \<Rightarrow> b | WriteErr k \<Rightarrow> take k b)"

definition res_body :: "response \<Rightarrow> string" where
  "res_body w = concat (map delivered (res_writes w))"

definition Write :: "string \<Rightarrow> write_result \<Rightarrow> response \<Rightarrow> response" where
  "Write b r w =
     w\<lparr>res_status := (case res_status w of None \<Rightarrow> Some 200 | Some s \<Rightarrow> Some s),
       res_writes := res_writes w @ [(b, r)]\<rparr>"

record NxContext =
  params :: "string list"
  stopped :: bool
  res :: response

definition UrlParams :: "NxContext \<Rightarrow> string list" where
  "UrlParams self = params self"

definition UrlParam :: "NxContext \<Rightarrow> int \<Rightarrow> panic + string" where
  "UrlParam self idx =
     (if idx < int (length (params self)) then index (params self) idx else Inr [])"

definition IsStopped :: "NxContext \<Rightarrow> bool" where
  "IsStopped self = stopped self"

definition End :: "int \<Rightarrow> NxContext \<Rightarrow> panic + NxContext" where
  "End status self =
     (if \<not> stopped self then
        (case WriteHeader status (res self) of
           Inl f \<Rightarrow> Inl f
         | Inr w \<Rightarrow> Inr (self\<lparr>stopped := True, res := w\<rparr>))
      else Inr self)"

definition SendBytes :: "string \<Rightarrow> write_result \<Rightarrow> NxContext \<Rightarrow> NxContext" where
  "SendBytes b r self = self\<lparr>res := Write b r (res self)\<rparr>"

definition SendString :: "string \<Rightarrow> write_result \<Rightarrow> NxContext \<Rightarrow> NxContext" where
  "SendString text r self = self\<lparr>res := Write text r (res self)\<rparr>"



section \<open>Strings\<close>

text \<open>Go strings and byte slices are byte sequences: \<open>string\<close>.\<close>

abbreviation CR :: char where "CR \<equiv> CHR 0x0D"
abbreviation LF :: char where "LF \<equiv> CHR 0x0A"

text \<open>\<open>strings.Split(s, sep)\<close> for a one-byte separator: cut at every occurrence.\<close>

function Split :: "string \<Rightarrow> char \<Rightarrow> string list" where
  "Split s sep =
     (case dropWhile (\<lambda>c. c \<noteq> sep) s of
        [] \<Rightarrow> [s]
      | _ # rest \<Rightarrow> takeWhile (\<lambda>c. c \<noteq> sep) s # Split rest sep)"
  by pat_completeness auto
termination
proof (relation "measure (\<lambda>(s, sep). length s)")
  show "wf (measure (\<lambda>(s, sep). length s))" by simp
next
  fix s :: string and sep :: char and x21 x22
  assume "dropWhile (\<lambda>c. c \<noteq> sep) s = x21 # x22"
  then have "length (x21 # x22) \<le> length s"
    by (metis length_dropWhile_le)
  then show "((x22, sep), (s, sep)) \<in> measure (\<lambda>(s, sep). length s)" by simp
qed

declare Split.simps [simp del]

text \<open>\<open>strings.SplitN(s, sep, 2)\<close>: cut at the first occurrence only.\<close>

definition SplitN2 :: "string \<Rightarrow> char \<Rightarrow> string list" where
  "SplitN2 s sep =
     (case dropWhile (\<lambda>c. c \<noteq> sep) s of
        [] \<Rightarrow> [s]
      | _ # rest \<Rightarrow> [takeWhile (\<lambda>c. c \<noteq> sep) s, rest])"

text \<open>\<open>strings.Trim(s, cutset)\<close> for a one-byte cutset.\<close>

definition Trim :: "string \<Rightarrow> char \<Rightarrow> string" where
  "Trim s c = rev (dropWhile (\<lambda>x. x = c) (rev (dropWhile (\<lambda>x. x = c) s)))"

text \<open>
  \<open>strings.ToLower\<close> and \<open>strings.ToUpper\<close> on ASCII text, where they change the
  letters A-Z and a-z only. (On other text Go maps Unicode letters; no such letter
  maps to a letter of \<open>status\<close>, so the comparison \<open>ToLower(name) == "status"\<close> is
  decided by the ASCII letters alone.)
\<close>

definition lower_char :: "char \<Rightarrow> char" where
  "lower_char c =
     (case map_of (zip ''ABCDEFGHIJKLMNOPQRSTUVWXYZ'' ''abcdefghijklmnopqrstuvwxyz'') c of
        Some l \<Rightarrow> l | None \<Rightarrow> c)"

definition upper_char :: "char \<Rightarrow> char" where
  "upper_char c =
     (case map_of (zip ''abcdefghijklmnopqrstuvwxyz'' ''ABCDEFGHIJKLMNOPQRSTUVWXYZ'') c of
        Some u \<Rightarrow> u | None \<Rightarrow> c)"

definition ToLower :: "string \<Rightarrow> string" where
  "ToLower s = map lower_char s"

definition ToUpper :: "string \<Rightarrow> string" where
  "ToUpper s = map upper_char s"

definition is_ascii :: "string \<Rightarrow> bool" where
  "is_ascii s = list_all (\<lambda>c. \<not> digit7 c) s"

text \<open>\<open>strings.Replace(s, old, new, -1)\<close> for one-byte \<open>old\<close> and \<open>new\<close>.\<close>

definition Replace :: "string \<Rightarrow> char \<Rightarrow> char \<Rightarrow> string" where
  "Replace s old new = map (\<lambda>c. if c = old then new else c) s"

subsection \<open>Numbers\<close>

definition digit_val :: "char \<Rightarrow> nat option" where
  "digit_val c = map_of (zip ''0123456789'' [0, 1, 2, 3, 4, 5, 6, 7, 8, 9]) c"

definition is_digit :: "char \<Rightarrow> bool" where
  "is_digit c = (digit_val c \<noteq> None)"

text \<open>The digit loop of \<open>strconv\<close>: \<open>n = n*10 + d\<close>, a syntax error at a non-digit.\<close>

fun parse_digits :: "nat \<Rightarrow> string \<Rightarrow> nat option" where
  "parse_digits n [] = Some n"
| "parse_digits n (c # cs) =
     (case digit_val c of None \<Rightarrow> None | Some d \<Rightarrow> parse_digits (n * 10 + d) cs)"

text \<open>
  \<open>strconv.Atoi\<close> (64-bit \<open>int\<close>): an optional sign, then one or more decimal digits
  and nothing else; a value outside the \<open>int\<close> range is an error. \<open>None\<close> is
  \<open>err != nil\<close>.
\<close>

definition Atoi :: "string \<Rightarrow> int option" where
  "Atoi s0 =
     (let neg = (case s0 of c # _ \<Rightarrow> c = CHR ''-'' | [] \<Rightarrow> False);
          s = (case s0 of c # r \<Rightarrow> if c = CHR ''-'' \<or> c = CHR ''+'' then r else s0 | [] \<Rightarrow> s0)
      in if s = [] then None
         else (case parse_digits 0 s of
                 None \<Rightarrow> None
               | Some n \<Rightarrow>
                   let x = (if neg then - int n else int n)
                   in if - (2 ^ 63) \<le> x \<and> x < 2 ^ 63 then Some x else None))"

text \<open>
  \<open>x, _ := strconv.ParseInt(t, 10, 16)\<close> on an unsigned digit string, the error
  dropped: 0 on a syntax error, the largest 16-bit value on a range error.
\<close>

definition ParseInt16 :: "string \<Rightarrow> int" where
  "ParseInt16 t =
     (if t = [] then 0
      else (case parse_digits 0 t of
              None \<Rightarrow> 0
            | Some n \<Rightarrow> if n < 2 ^ 15 then int n else 2 ^ 15 - 1))"

text \<open>\<open>fmt.Sprintf("%d", i)\<close>.\<close>

fun digits :: "nat \<Rightarrow> string" where
  "digits n = (if n < 10 then [''0123456789'' ! n]
               else digits (n div 10) @ [''0123456789'' ! (n mod 10)])"

declare digits.simps [simp del]

definition Itoa :: "int \<Rightarrow> string" where
  "Itoa i = (if i < 0 then CHR ''-'' # digits (nat (- i)) else digits (nat i))"


section \<open>Regular expressions of the gateway\<close>

text \<open>
  \<open>eoh\<close> is \<open>\r?\n\r?\n\<close>. \<open>opt_cr\<close> is \<open>\r?\<close> and \<open>lf\<close> is \<open>\n\<close>, each returning the
  text to the right of what it matched. Taking the CR whenever it is there is exact:
  if the rest fails after a CR was taken, it also fails without it, since then a LF
  would have to stand where the CR is.
\<close>

definition opt_cr :: "string \<Rightarrow> string" where
  "opt_cr s = (case s of c # r \<Rightarrow> if c = CR then r else s | [] \<Rightarrow> s)"

definition lf :: "string \<Rightarrow> string option" where
  "lf s = (case s of c # r \<Rightarrow> if c = LF then Some r else None | [] \<Rightarrow> None)"

definition eoh_match :: "string \<Rightarrow> string option" where
  "eoh_match s = (case lf (opt_cr s) of None \<Rightarrow> None | Some r \<Rightarrow> lf (opt_cr r))"

text \<open>
  \<open>eoh.FindIndex(b)\<close>: start and end offset of the leftmost match, searched from
  offset \<open>p\<close> on.
\<close>

fun FindIndex_from :: "nat \<Rightarrow> string \<Rightarrow> (nat \<times> nat) option" where
  "FindIndex_from p [] = None"
| "FindIndex_from p (c # cs) =
     (case eoh_match (c # cs) of
        Some r \<Rightarrow> Some (p, p + (length (c # cs) - length r))
      | None \<Rightarrow> FindIndex_from (Suc p) cs)"

definition FindIndex :: "string \<Rightarrow> (nat \<times> nat) option" where
  "FindIndex b = FindIndex_from 0 b"

text \<open>
  \<open>status_re\<close> is \<open>^HTTP/.+(\d\d\d)\<close>, applied to one line (a line holds no LF, so
  \<open>.\<close> is any byte). The greedy \<open>.+\<close> gives up as little as it must, so the group is
  the right-most run of three digits that leaves \<open>.+\<close> at least one byte.
  \<open>last_3digits\<close> finds the right-most three digits of a text; \<open>status_re s\<close> is the
  group \<open>t[0][1]\<close> of \<open>FindAllStringSubmatch(s, -1)\<close>, \<open>None\<close> when \<open>len(t) = 0\<close>.
\<close>

fun last_3digits :: "string \<Rightarrow> string option" where
  "last_3digits (a # b # c # rest) =
     (case last_3digits (b # c # rest) of
        Some t \<Rightarrow> Some t
      | None \<Rightarrow> if is_digit a \<and> is_digit b \<and> is_digit c then Some [a, b, c] else None)"
| "last_3digits _ = None"

definition status_re :: "string \<Rightarrow> string option" where
  "status_re s =
     (if take 5 s = ''HTTP/'' then
        (case drop 5 s of [] \<Rightarrow> None | _ # rest \<Rightarrow> last_3digits rest)
      else None)"


section \<open>Environment of the subprocess\<close>

record request =
  Method :: string
  Path :: string
  RawQuery :: string
  ContentLength :: int
  Host :: string
  Header :: "(string \<times> string list) list"

record CgiProcessor = DefaultProcessor +
  bin :: string
  opts :: "string list"
  envs :: "string list"

text \<open>
  \<open>envmap\<close> and \<open>Header\<close> are Go maps, ranged over in an order the language leaves
  open: they are lists of (key, value), in the order of the iteration.
\<close>

definition NewCgiProcessor :: "string \<Rightarrow> string list \<Rightarrow> (string \<times> string) list \<Rightarrow> CgiProcessor" where
  "NewCgiProcessor b os envmap =
     \<lparr>name = ''cgi'', timeout = 0, nextp = None,
      bin = b, opts = os, envs = map (\<lambda>(k, v). k @ ''='' @ v) envmap\<rparr>"

definition header_env :: "(string \<times> string list) list \<Rightarrow> string list" where
  "header_env h =
     concat (map (\<lambda>(k, vs).
       concat (map (\<lambda>s.
         let name = Replace (ToUpper k) (CHR ''-'') (CHR ''_'')
         in [name @ ''='' @ s, ''HTTP_'' @ name @ ''='' @ s]) vs)) h)"

definition make_env :: "CgiProcessor \<Rightarrow> request \<Rightarrow> panic + string list" where
  "make_env self r =
     (let env = envs self;
          env = env @ [''SERVER_PROTOCOL=HTTP/1.1''];
          env = env @ [''GATEWAY_INTERFACE=CGI/1.1''];
          env = env @ [''PATH_INFO='' @ Path r];
          env = env @ [''REQUEST_METHOD='' @ Method r];
          env = env @ [''QUERY_STRING='' @ RawQuery r];
          env = env @ [''CONTENT_LENGTH='' @ Itoa (ContentLength r)];
          hp = Split (Host r) (CHR '':'')
      in case index hp 0 of
           Inl f \<Rightarrow> Inl f
         | Inr hp0 \<Rightarrow>
             let env = env @ [''SERVER_NAME='' @ hp0] in
             if length hp > 1 then
               (case index hp 1 of
                  Inl f \<Rightarrow> Inl f
                | Inr hp1 \<Rightarrow> Inr (env @ [''SERVER_PORT='' @ hp1] @ header_env (Header r)))
             else Inr (env @ [''SERVER_PORT=80''] @ header_env (Header r)))"

text \<open>
  What the subprocess sees under a name: \<open>os/exec\<close> passes, of the entries of
  \<open>cmd.Env\<close> with the same key, only the last one. The key of an entry is the text
  before its first \<open>=\<close>.
\<close>

definition env_key :: "string \<Rightarrow> string" where
  "env_key kv = takeWhile (\<lambda>c. c \<noteq> CHR ''='') kv"

definition env_val :: "string \<Rightarrow> string" where
  "env_val kv = drop (Suc (length (env_key kv))) kv"

definition Getenv :: "string list \<Rightarrow> string \<Rightarrow> string option" where
  "Getenv env k =
     (let es = filter (\<lambda>kv. CHR ''='' \<in> set kv \<and> env_key kv = k) env
      in if es = [] then None else Some (env_val (last es)))"


subsection \<open>The assembled environment, described\<close>

text \<open>
  The two entries that \<open>make_env\<close> derives from \<open>r.Host\<close>, and the eight entries it
  appends between the fixed entries and the header entries, written without the
  split: \<open>host_name\<close> is the text before the first colon, \<open>host_port\<close> the text
  between the first colon and the next one (or the end), and \<open>80\<close> without a colon.
\<close>

definition host_name :: "string \<Rightarrow> string" where
  "host_name h = takeWhile (\<lambda>c. c \<noteq> CHR '':'') h"

definition host_port :: "string \<Rightarrow> string" where
  "host_port h =
     (case dropWhile (\<lambda>c. c \<noteq> CHR '':'') h of
        [] \<Rightarrow> ''80''
      | _ # rest \<Rightarrow> takeWhile (\<lambda>c. c \<noteq> CHR '':'') rest)"

definition cgi_env :: "request \<Rightarrow> string list" where
  "cgi_env r =
     [''SERVER_PROTOCOL=HTTP/1.1'', ''GATEWAY_INTERFACE=CGI/1.1'',
      ''PATH_INFO='' @ Path r, ''REQUEST_METHOD='' @ Method r,
      ''QUERY_STRING='' @ RawQuery r, ''CONTENT_LENGTH='' @ Itoa (ContentLength r),
      ''SERVER_NAME='' @ host_name (Host r), ''SERVER_PORT='' @ host_port (Host r)]"


section \<open>Output translator (stdout piping routine)\<close>

text \<open>
  The body of the loop over the header lines. An empty line makes \<open>s[len(s)-1]\<close>
  panic.
\<close>

definition header_line :: "string \<Rightarrow> int \<times> response \<Rightarrow> panic + (int \<times> response)" where
  "header_line s0 = (\<lambda>(status, w).
     case index s0 (int (length s0) - 1) of
       Inl f \<Rightarrow> Inl f
     | Inr c \<Rightarrow>
         let s = (if c = CR then take (length s0 - 1) s0 else s0);
             p = SplitN2 s (CHR '':'')
         in (case p of
               p0 # p1 # _ \<Rightarrow>
                 let name = Trim p0 (CHR '' ''); val = Trim p1 (CHR '' '')
                 in if ToLower name = ''status'' then
                      (case Atoi val of
                         Some x \<Rightarrow> Inr (x, w)
                       | None \<Rightarrow> Inr (status, w))
                    else Inr (status, Header_Set name val w)
             | _ \<Rightarrow>
                 (case status_re s of
                    Some t \<Rightarrow> Inr (ParseInt16 t, w)
                  | None \<Rightarrow> Inr (status, w))))"

fun header_lines :: "string list \<Rightarrow> int \<times> response \<Rightarrow> panic + (int \<times> response)" where
  "header_lines [] sw = Inr sw"
| "header_lines (s # ss) sw =
     (case header_line s sw of Inl f \<Rightarrow> Inl f | Inr sw' \<Rightarrow> header_lines ss sw')"

text \<open>The local variables of the routine.\<close>

record piping =
  buf :: string
  isheader :: bool
  status :: int
  hdr :: string
  stop :: bool

definition piping0 :: piping where
  "piping0 = \<lparr>buf = replicate 512 (CHR 0x00), isheader = True, status = 200, hdr = [], stop = False\<rparr>"

text \<open>
  One turn of the loop meets one result of \<open>stdout.Read(buf)\<close>: the \<open>n\<close> bytes read
  (\<open>ev_data\<close>), whether \<open>e != nil\<close> (\<open>ev_err\<close>), and the outcome of the \<open>Write\<close> of this
  turn, should it write (\<open>ev_write\<close>). \<open>Read\<close> overwrites the first \<open>n\<close> bytes of the
  buffer and leaves the others as they were.
\<close>

record event =
  ev_data :: string
  ev_err :: bool
  ev_write :: write_result

definition stdout_Read :: "string \<Rightarrow> string \<Rightarrow> string" where
  "stdout_Read b d = d @ drop (length d) b"

definition piping_step :: "event \<Rightarrow> piping \<times> NxContext \<Rightarrow> panic + (piping \<times> NxContext)" where
  "piping_step ev = (\<lambda>(st, ctx).
     let n = length (ev_data ev);
         b = stdout_Read (buf st) (ev_data ev);
         st = st\<lparr>buf := b, stop := (stop st \<or> ev_err ev)\<rparr>
     in if n > 0 then
          if isheader st then
            (case FindIndex b of
               Some (i0, i1) \<Rightarrow>
                 let st = st\<lparr>hdr := hdr st @ take i0 b, isheader := False\<rparr>
                 in (case header_lines (Split (hdr st) LF) (status st, res ctx) of
                       Inl f \<Rightarrow> Inl f
                     | Inr (x, w) \<Rightarrow>
                         let st = st\<lparr>status := x\<rparr>; ctx = ctx\<lparr>res := w\<rparr>
                         in if \<not> IsStopped ctx then
                              (case WriteHeader (status st) (res ctx) of
                                 Inl f \<Rightarrow> Inl f
                               | Inr w' \<Rightarrow>
                                   if i1 < n - 1 then
                                     Inr (st\<lparr>stop := (stop st \<or> ev_write ev \<noteq> WriteOk)\<rparr>,
                                          ctx\<lparr>res := Write (take (n - i1) (drop i1 b)) (ev_write ev) w'\<rparr>)
                                   else Inr (st, ctx\<lparr>res := w'\<rparr>))
                            else Inr (st, ctx))
             | None \<Rightarrow> Inr (st\<lparr>hdr := hdr st @ take n b\<rparr>, ctx))
          else if \<not> IsStopped ctx then
            Inr (st\<lparr>stop := (stop st \<or> ev_write ev \<noteq> WriteOk)\<rparr>,
                 ctx\<lparr>res := Write (take n b) (ev_write ev) (res ctx)\<rparr>)
          else Inr (st, ctx)
        else Inr (st, ctx))"

text \<open>\<open>for stop := false; !stop; { ... }\<close> over the successive results of \<open>Read\<close>.\<close>

fun piping_loop :: "event list \<Rightarrow> piping \<times> NxContext \<Rightarrow> panic + (piping \<times> NxContext)" where
  "piping_loop [] s = Inr s"
| "piping_loop (ev # evs) s =
     (if stop (fst s) then Inr s
      else (case piping_step ev s of Inl f \<Rightarrow> Inl f | Inr s' \<Rightarrow> piping_loop evs s'))"


subsection \<open>The header block, described line by line\<close>

text \<open>
  What one line of the header block contributes: \<open>line_status\<close> is the status it
  sets, if it sets one, and \<open>line_header\<close> the response header it sets, if it sets
  one. \<open>last_status d ls\<close> is the status set by the last line of \<open>ls\<close> that sets
  one, and \<open>d\<close> if none does.
\<close>

definition strip_cr :: "string \<Rightarrow> string" where
  "strip_cr s = (if s \<noteq> [] \<and> last s = CR then take (length s - 1) s else s)"

definition line_status :: "string \<Rightarrow> int option" where
  "line_status s =
     (case SplitN2 (strip_cr s) (CHR '':'') of
        p0 # p1 # _ \<Rightarrow>
          if ToLower (Trim p0 (CHR '' '')) = ''status'' then Atoi (Trim p1 (CHR '' '')) else None
      | _ \<Rightarrow> map_option ParseInt16 (status_re (strip_cr s)))"

definition line_header :: "string \<Rightarrow> (string \<times> string) option" where
  "line_header s =
     (case SplitN2 (strip_cr s) (CHR '':'') of
        p0 # p1 # _ \<Rightarrow>
          if ToLower (Trim p0 (CHR '' '')) = ''status'' then None
          else Some (Trim p0 (CHR '' ''), Trim p1 (CHR '' ''))
      | _ \<Rightarrow> None)"

definition last_status :: "int \<Rightarrow> string list \<Rightarrow> int" where
  "last_status d ls = last (d # List.map_filter line_status ls)"




subsection \<open>Runs of the translator\<close>

text \<open>
  A text holds a separator when CRLF CRLF, CRLF LF, LF CRLF or LF LF stands
  somewhere in it.
\<close>

definition starts_with_separator :: "string \<Rightarrow> bool" where
  "starts_with_separator t =
     (take 4 t = [CR, LF, CR, LF] \<or> take 3 t = [CR, LF, LF]
      \<or> take 3 t = [LF, CR, LF] \<or> take 2 t = [LF, LF])"

fun holds_separator :: "string \<Rightarrow> bool" where
  "holds_separator [] = False"
| "holds_separator (c # cs) = (starts_with_separator (c # cs) \<or> holds_separator cs)"



text \<open>
  The gateway calls \<open>ctx.End\<close> from its own goroutine while the piping routine runs:
  a run is an interleaving of turns of the piping loop (a turn does nothing once
  \<open>stop\<close> is set: the loop has ended) and calls of \<open>End\<close>. \<open>sent\<close> is what has gone
  out to the client: the status line, the informational responses and the calls of
  \<open>Write\<close>.
\<close>

datatype action = Iterate event | CallEnd int

fun perform :: "action \<Rightarrow> piping \<times> NxContext \<Rightarrow> panic + (piping \<times> NxContext)" where
  "perform (Iterate ev) (st, ctx) = (if stop st then Inr (st, ctx) else piping_step ev (st, ctx))"
| "perform (CallEnd s) (st, ctx) = (case End s ctx of Inl f \<Rightarrow> Inl f | Inr ctx' \<Rightarrow> Inr (st, ctx'))"

fun perform_all :: "action list \<Rightarrow> piping \<times> NxContext \<Rightarrow> panic + (piping \<times> NxContext)" where
  "perform_all [] s = Inr s"
| "perform_all (a # as) s = (case perform a s of Inl f \<Rightarrow> Inl f | Inr s' \<Rightarrow> perform_all as s')"

definition sent :: "response \<Rightarrow> int option \<times> int list \<times> (string \<times> write_result) list" where
  "sent w = (res_status w, res_info w, res_writes w)"

text \<open>The response of an outcome, and a \<open>Read\<close> of the bytes \<open>d\<close> with no error.\<close>

definition response_of :: "panic + (piping \<times> NxContext) \<Rightarrow> panic + response" where
  "response_of r = (case r of Inl f \<Rightarrow> Inl f | Inr (st, c) \<Rightarrow> Inr (res c))"

definition chunk :: "string \<Rightarrow> event" where
  "chunk d = \<lparr>ev_data = d, ev_err = False, ev_write = WriteOk\<rparr>"


section \<open>Example inputs\<close>

definition ctx0 :: NxContext where
  "ctx0 = \<lparr>params = [], stopped = False,
            res = \<lparr>res_status = None, res_info = [], res_sets = [], res_writes = []\<rparr>\<rparr>"

definition req1 :: request where
  "req1 = \<lparr>Method = ''GET'', Path = ''/report'', RawQuery = ''x=1'', ContentLength = 0,
            Host = ''api.example.com'', Header = [(''X-Foo'', [''a'', ''b'']), (''Accept'', [''*/*''])]\<rparr>"

definition cgi1 :: CgiProcessor where
  "cgi1 = NewCgiProcessor ''echo-cgi'' [''--mode'', ''x''] [(''SERVER_PROTOCOL'', ''HTTP/2''), (''LANG'', ''C'')]"

definition proc_fn :: DefaultProcessor where
  "proc_fn = \<lparr>name = ''function'', timeout = 3000, nextp = Some 2\<rparr>"

definition proc_cgi :: DefaultProcessor where
  "proc_cgi = \<lparr>name = ''cgi'', timeout = 0, nextp = None\<rparr>"

definition heap0 :: heap where
  "heap0 = (\<lambda>_. proc_cgi)(1 := proc_fn, 2 := proc_cgi)"

definition entry0 :: BaseEntry where
  "entry0 = \<lparr>ename = ''/report'', proc = Some 1, debug = False\<rparr>"



definition ended :: NxContext where
  "ended = \<lparr>params = [], stopped = True,
            res = \<lparr>res_status = Some 500, res_info = [], res_sets = [], res_writes = []\<rparr>\<rparr>"

definition streaming :: "piping \<times> NxContext" where
  "streaming = (piping0\<lparr>isheader := False\<rparr>,
                ctx0\<lparr>res := \<lparr>res_status = Some 200, res_info = [], res_sets = [], res_writes = []\<rparr>\<rparr>)"


section \<open>Route parameters\<close>

lemma UrlParam_in_range:
  "0 \<le> i \<Longrightarrow> UrlParam c i = Inr (if i < int (length (params c)) then params c ! nat i else [])"
  by (simp add: UrlParam_def index_def)

lemma UrlParam_negative: "i < 0 \<Longrightarrow> UrlParam c i = Inl IndexOutOfRange"
  by (simp add: UrlParam_def index_def)

text \<open>
  C9. The accessor guards the upper bound only: at a negative index the guard
  \<open>idx < len(self.params)\<close> holds and \<open>self.params[idx]\<close> panics. Here the context has
  the single route parameter \<open>42\<close> and the index is \<open>-1\<close>; the claim asks for the
  empty string.
\<close>

theorem UrlParam_negative_panics:
  "UrlParam \<lparr>params = [''42''], stopped = False,
      res = \<lparr>res_status = None, res_info = [], res_sets = [], res_writes = []\<rparr>\<rparr> (- 1) = Inl IndexOutOfRange"
  by (simp add: UrlParam_def index_def)


section \<open>Timeouts\<close>

lemma SetTimeout_nonpos: "i \<le> 0 \<Longrightarrow> SetTimeout i p = p"
  by (simp add: SetTimeout_def)

lemma SetTimeout_keeps_positive: "0 < timeout p \<Longrightarrow> 0 < timeout (SetTimeout i p)"
  by (simp add: SetTimeout_def)

lemma set_timeout_loop_keeps_positive:
  assumes "set_timeout_loop i p h = Some h'"
  shows "0 < timeout (h a) \<longrightarrow> 0 < timeout (h' a)"
proof (induct rule: set_timeout_loop.raw_induct [OF _ assms])
  case (1 loop i p h h')
  show ?case
  proof (cases p)
    case None
    with 1(2) show ?thesis by simp
  next
    case (Some b)
    with 1(2) have "loop i (getnext (SetTimeout i (h b))) (h(b := SetTimeout i (h b))) = Some h'"
      by simp
    from 1(1)[OF this]
    have step: "0 < timeout ((h(b := SetTimeout i (h b))) a) \<longrightarrow> 0 < timeout (h' a)" .
    have "0 < timeout ((h(b := SetTimeout i (h b))) a)" if "0 < timeout (h a)"
      using that by (auto simp: SetTimeout_def)
    with step show ?thesis by blast
  qed
qed

text \<open>
  C10. A non-positive argument changes neither the processor nor, through the
  entry, any processor of the heap; and a positive timeout stays positive under
  every \<open>SetTimeout\<close>, of a processor (one call or any sequence of calls) or of an
  entry that returns, so the deadline branch of the gateway, once taken, stays
  taken.
\<close>

theorem SetTimeout_never_clears:
  "(i \<le> 0 \<longrightarrow> SetTimeout i p = p \<and> BaseEntry_SetTimeout i e h = Some h) \<and>
   (deadline_bound p \<longrightarrow> deadline_bound (SetTimeout j p)) \<and>
   (deadline_bound p \<longrightarrow> deadline_bound (fold SetTimeout js p)) \<and>
   (\<forall>h' a. BaseEntry_SetTimeout j e h = Some h' \<and> deadline_bound (h a) \<longrightarrow> deadline_bound (h' a))"
proof -
  have fold_pos: "0 < timeout q \<Longrightarrow> 0 < timeout (fold SetTimeout js q)" for q
    by (induction js arbitrary: q) (simp_all add: SetTimeout_keeps_positive)
  have entry: "BaseEntry_SetTimeout j e h = Some h' \<Longrightarrow> 0 < timeout (h a) \<Longrightarrow> 0 < timeout (h' a)"
    for h' a
    using set_timeout_loop_keeps_positive [of j "proc e" h h' a]
    by (auto simp: BaseEntry_SetTimeout_def split: if_splits)
  show ?thesis
    using fold_pos [of p] entry
    by (auto simp: SetTimeout_nonpos SetTimeout_keeps_positive BaseEntry_SetTimeout_def
        deadline_bound_def GetTimeout_def)
qed

text \<open>
  Witness for C10 on a chain of two processors: the function processor at address 1
  (timeout 3000) and the gateway at address 2 (timeout 0).
\<close>

theorem SetTimeout_never_clears_witness:
  "SetTimeout (- 5) proc_fn = proc_fn
   \<and> BaseEntry_SetTimeout (- 5) entry0 heap0 = Some heap0
   \<and> deadline_bound proc_fn
   \<and> deadline_bound (SetTimeout 0 proc_fn)
   \<and> deadline_bound (fold SetTimeout [0, - 2, 7] proc_fn)
   \<and> BaseEntry_SetTimeout 0 entry0 heap0 = Some heap0
   \<and> deadline_bound (heap0 1)
   \<and> (\<exists>h'. BaseEntry_SetTimeout 500 entry0 heap0 = Some h' \<and> deadline_bound (h' 1)
          \<and> timeout (h' 2) = 500)"
proof -
  have d: "deadline_bound proc_fn" "deadline_bound (heap0 1)"
    by (simp_all add: deadline_bound_def GetTimeout_def proc_fn_def heap0_def)
  have l: "BaseEntry_SetTimeout 500 entry0 heap0 =
      Some (heap0(1 := proc_fn\<lparr>timeout := 500\<rparr>, 2 := proc_cgi\<lparr>timeout := 500\<rparr>))"
    by (simp add: BaseEntry_SetTimeout_def entry0_def set_timeout_loop.simps heap0_def
        SetTimeout_def getnext_def proc_fn_def proc_cgi_def)
  have z: "BaseEntry_SetTimeout 0 entry0 heap0 = Some heap0"
    by (simp add: BaseEntry_SetTimeout_def)
  from SetTimeout_never_clears [of "- 5" proc_fn entry0 heap0 0 "[0, - 2, 7]"] d z
    SetTimeout_never_clears [of "- 5" proc_fn entry0 heap0 500 "[0, - 2, 7]"] l
  show ?thesis by (auto simp: proc_cgi_def)
qed


section \<open>Environment of the subprocess: properties\<close>

lemma Split_Nil_drop:
  "dropWhile (\<lambda>c. c \<noteq> sep) s = [] \<Longrightarrow> Split s sep = [s]"
  by (subst Split.simps) (simp only: list.case)

lemma Split_Cons_drop:
  "dropWhile (\<lambda>c. c \<noteq> sep) s = c # rest \<Longrightarrow>
   Split s sep = takeWhile (\<lambda>c. c \<noteq> sep) s # Split rest sep"
  by (subst Split.simps) (simp only: list.case)

lemma Split_hd_tl: "Split s sep = takeWhile (\<lambda>c. c \<noteq> sep) s # tl (Split s sep)"
proof (cases "dropWhile (\<lambda>c. c \<noteq> sep) s")
  case Nil
  then have e: "takeWhile (\<lambda>c. c \<noteq> sep) s = s"
    by (metis append_Nil2 takeWhile_dropWhile_id)
  show ?thesis by (simp only: Split_Nil_drop [OF Nil] e list.sel)
next
  case (Cons c rest)
  from Split_Cons_drop [OF this] show ?thesis by simp
qed

lemma Split_no_sep: "sep \<notin> set s \<Longrightarrow> Split s sep = [s]"
proof (rule Split_Nil_drop)
  assume "sep \<notin> set s"
  then show "dropWhile (\<lambda>c. c \<noteq> sep) s = []" by (induction s) auto
qed

lemma Split_at_sep:
  assumes "sep \<notin> set a"
  shows "Split (a @ sep # b) sep = a # Split b sep"
proof -
  from assms have d: "dropWhile (\<lambda>c. c \<noteq> sep) (a @ sep # b) = sep # b"
    by (induction a) auto
  from assms have t: "takeWhile (\<lambda>c. c \<noteq> sep) (a @ sep # b) = a"
    by (induction a) auto
  from Split_Cons_drop [OF d] t show ?thesis by simp
qed

lemma make_env_eq:
  "make_env self r = Inr (envs self @ cgi_env r @ header_env (Header r))"
proof (cases "dropWhile (\<lambda>c. c \<noteq> CHR '':'') (Host r)")
  case Nil
  then have n: "host_name (Host r) = Host r"
    unfolding host_name_def by (metis append_Nil2 takeWhile_dropWhile_id)
  from Nil have p: "host_port (Host r) = ''80''"
    by (simp only: host_port_def list.case)
  have s: "Split (Host r) (CHR '':'') = [Host r]"
    by (rule Split_Nil_drop [OF Nil])
  show ?thesis
    unfolding make_env_def cgi_env_def Let_def s n p index_def by simp
next
  case (Cons c rest)
  then have p: "host_port (Host r) = takeWhile (\<lambda>c. c \<noteq> CHR '':'') rest"
    by (simp only: host_port_def list.case)
  have "Split (Host r) (CHR '':'') = host_name (Host r) # Split rest (CHR '':'')"
    unfolding host_name_def by (rule Split_Cons_drop [OF Cons])
  also have "Split rest (CHR '':'') = host_port (Host r) # tl (Split rest (CHR '':''))"
    unfolding p by (rule Split_hd_tl)
  finally have s: "Split (Host r) (CHR '':'') =
      host_name (Host r) # host_port (Host r) # tl (Split rest (CHR '':''))" .
  show ?thesis
    unfolding make_env_def cgi_env_def Let_def s index_def by simp
qed

lemma Getenv_append:
  "Getenv (a @ b) k = (case Getenv b k of Some v \<Rightarrow> Some v | None \<Rightarrow> Getenv a k)"
  by (simp add: Getenv_def Let_def)

lemma env_key_eq: "CHR ''='' \<notin> set k \<Longrightarrow> env_key (k @ CHR ''='' # v) = k"
  unfolding env_key_def by (induction k) auto


lemma header_env_Cons:
  "header_env ((k, vs) # h) =
     concat (map (\<lambda>s. [Replace (ToUpper k) (CHR ''-'') (CHR ''_'') @ ''='' @ s,
                        ''HTTP_'' @ Replace (ToUpper k) (CHR ''-'') (CHR ''_'') @ ''='' @ s]) vs)
     @ header_env h"
  by (simp add: header_env_def Let_def)

lemma header_env_length: "length (header_env h) = 2 * sum_list (map (\<lambda>(k, vs). length vs) h)"
proof (induction h)
  case Nil
  show ?case by (simp add: header_env_def)
next
  case (Cons kv h)
  obtain k vs where kv: "kv = (k, vs)" by (cases kv)
  have "length (concat (map (\<lambda>s. [f s, g s]) vs)) = 2 * length vs" for f g :: "string \<Rightarrow> string"
    by (induction vs) simp_all
  with Cons show ?case by (simp add: kv header_env_Cons)
qed

lemma header_env_mem:
  assumes "(k, vs) \<in> set h" and "s \<in> set vs"
  shows "Replace (ToUpper k) (CHR ''-'') (CHR ''_'') @ ''='' @ s \<in> set (header_env h)
       \<and> ''HTTP_'' @ Replace (ToUpper k) (CHR ''-'') (CHR ''_'') @ ''='' @ s \<in> set (header_env h)"
  using assms by (force simp: header_env_def Let_def)

text \<open>
  C7. For a request header \<open>k\<close> (an ASCII name, as every header field name is) with
  a value \<open>s\<close>, the environment holds \<open>N=s\<close> and \<open>HTTP_N=s\<close>, where \<open>N\<close> is \<open>k\<close>
  upper-cased with hyphens turned to underscores. The header entries are what
  follows the fixed entries and the eight CGI entries, two per header value, so a
  repeated name gives repeated pairs.
\<close>

theorem header_env_pairs:
  assumes "(k, vs) \<in> set (Header r)" and "s \<in> set vs" and "is_ascii k"
  shows "\<exists>env. make_env self r = Inr env
     \<and> Replace (ToUpper k) (CHR ''-'') (CHR ''_'') @ ''='' @ s \<in> set env
     \<and> ''HTTP_'' @ Replace (ToUpper k) (CHR ''-'') (CHR ''_'') @ ''='' @ s \<in> set env
     \<and> drop (length (envs self) + 8) env = header_env (Header r)
     \<and> length (header_env (Header r)) = 2 * sum_list (map (\<lambda>(k, vs). length vs) (Header r))"
  using header_env_mem [OF assms(1,2)]
  by (simp add: make_env_eq header_env_length cgi_env_def)

text \<open>Witness for C7: the header \<open>X-Foo\<close> with the values \<open>a\<close> and \<open>b\<close>.\<close>

theorem header_env_pairs_witness:
  "(''X-Foo'', [''a'', ''b'']) \<in> set (Header req1) \<and> ''b'' \<in> set [''a'', ''b''] \<and> is_ascii ''X-Foo''
   \<and> (\<exists>env. make_env cgi1 req1 = Inr env
        \<and> ''X_FOO=b'' \<in> set env \<and> ''HTTP_X_FOO=b'' \<in> set env
        \<and> drop (length (envs cgi1) + 8) env = header_env (Header req1)
        \<and> length (header_env (Header req1)) = 6)"
proof -
  have a: "(''X-Foo'', [''a'', ''b'']) \<in> set (Header req1)" by (simp add: req1_def)
  have b: "''b'' \<in> set [''a'', ''b'']" by simp
  have c: "is_ascii ''X-Foo''" by (simp add: is_ascii_def)
  have n: "Replace (ToUpper ''X-Foo'') (CHR ''-'') (CHR ''_'') = ''X_FOO''" by code_simp
  have l: "sum_list (map (\<lambda>(k, vs). length vs) (Header req1)) = 3" by (simp add: req1_def)
  from header_env_pairs [OF a b c, of cgi1] a b c show ?thesis
    unfolding n l by auto
qed

text \<open>
  C6, as amended. For a Host without a colon, \<open>SERVER_NAME\<close> is the Host and
  \<open>SERVER_PORT\<close> is \<open>80\<close>; for a Host \<open>name:port\<close> with no colon in \<open>name\<close> or
  \<open>port\<close>, \<open>SERVER_NAME\<close> is \<open>name\<close> and \<open>SERVER_PORT\<close> is \<open>port\<close>.
\<close>

theorem make_env_server_name_port:
  assumes "CHR '':'' \<notin> set nm" and "CHR '':'' \<notin> set port"
  shows "make_env self (r\<lparr>Host := nm\<rparr>) =
           Inr (envs self @
                [''SERVER_PROTOCOL=HTTP/1.1'', ''GATEWAY_INTERFACE=CGI/1.1'',
                 ''PATH_INFO='' @ Path r, ''REQUEST_METHOD='' @ Method r,
                 ''QUERY_STRING='' @ RawQuery r, ''CONTENT_LENGTH='' @ Itoa (ContentLength r),
                 ''SERVER_NAME='' @ nm, ''SERVER_PORT=80''] @ header_env (Header r))
       \<and> make_env self (r\<lparr>Host := nm @ '':'' @ port\<rparr>) =
           Inr (envs self @
                [''SERVER_PROTOCOL=HTTP/1.1'', ''GATEWAY_INTERFACE=CGI/1.1'',
                 ''PATH_INFO='' @ Path r, ''REQUEST_METHOD='' @ Method r,
                 ''QUERY_STRING='' @ RawQuery r, ''CONTENT_LENGTH='' @ Itoa (ContentLength r),
                 ''SERVER_NAME='' @ nm, ''SERVER_PORT='' @ port] @ header_env (Header r))"
proof -
  from assms(1) have d1: "dropWhile (\<lambda>c. c \<noteq> CHR '':'') nm = []" by (induction nm) auto
  then have t1: "takeWhile (\<lambda>c. c \<noteq> CHR '':'') nm = nm"
    by (metis append_Nil2 takeWhile_dropWhile_id)
  from assms(1) have d2: "dropWhile (\<lambda>c. c \<noteq> CHR '':'') (nm @ CHR '':'' # port) = CHR '':'' # port"
    by (induction nm) auto
  from assms(1) have t2: "takeWhile (\<lambda>c. c \<noteq> CHR '':'') (nm @ CHR '':'' # port) = nm"
    by (induction nm) auto
  from assms(2) have d3: "dropWhile (\<lambda>c. c \<noteq> CHR '':'') port = []" by (induction port) auto
  then have t3: "takeWhile (\<lambda>c. c \<noteq> CHR '':'') port = port"
    by (metis append_Nil2 takeWhile_dropWhile_id)
  show ?thesis
    by (simp add: make_env_eq cgi_env_def host_name_def host_port_def d1 t1 d2 t2 t3)
qed

text \<open>Witness for C6: the Hosts \<open>api.example.com\<close> and \<open>api.example.com:8080\<close>.\<close>

theorem make_env_server_name_port_witness:
  "make_env cgi1 req1 =
     Inr [''SERVER_PROTOCOL=HTTP/2'', ''LANG=C'',
          ''SERVER_PROTOCOL=HTTP/1.1'', ''GATEWAY_INTERFACE=CGI/1.1'', ''PATH_INFO=/report'',
          ''REQUEST_METHOD=GET'', ''QUERY_STRING=x=1'', ''CONTENT_LENGTH=0'',
          ''SERVER_NAME=api.example.com'', ''SERVER_PORT=80'',
          ''X_FOO=a'', ''HTTP_X_FOO=a'', ''X_FOO=b'', ''HTTP_X_FOO=b'',
          ''ACCEPT=*/*'', ''HTTP_ACCEPT=*/*'']
   \<and> make_env cgi1 (req1\<lparr>Host := ''api.example.com:8080''\<rparr>) =
     Inr [''SERVER_PROTOCOL=HTTP/2'', ''LANG=C'',
          ''SERVER_PROTOCOL=HTTP/1.1'', ''GATEWAY_INTERFACE=CGI/1.1'', ''PATH_INFO=/report'',
          ''REQUEST_METHOD=GET'', ''QUERY_STRING=x=1'', ''CONTENT_LENGTH=0'',
          ''SERVER_NAME=api.example.com'', ''SERVER_PORT=8080'',
          ''X_FOO=a'', ''HTTP_X_FOO=a'', ''X_FOO=b'', ''HTTP_X_FOO=b'',
          ''ACCEPT=*/*'', ''HTTP_ACCEPT=*/*'']"
proof -
  have a: "CHR '':'' \<notin> set ''api.example.com''" by simp
  have b: "CHR '':'' \<notin> set ''8080''" by simp
  have e: "envs cgi1 = [''SERVER_PROTOCOL=HTTP/2'', ''LANG=C'']"
    by (simp add: cgi1_def NewCgiProcessor_def)
  have h: "header_env (Header req1) =
     [''X_FOO=a'', ''HTTP_X_FOO=a'', ''X_FOO=b'', ''HTTP_X_FOO=b'', ''ACCEPT=*/*'', ''HTTP_ACCEPT=*/*'']"
    by code_simp
  have i: "Itoa (ContentLength req1) = ''0''" by code_simp
  have r: "req1\<lparr>Host := ''api.example.com''\<rparr> = req1" by (simp add: req1_def)
  show ?thesis
    using make_env_server_name_port [OF a b, of cgi1 req1]
    by (simp add: e h i r) (simp add: req1_def)
qed

text \<open>
  Counterexample to C6 as stated: for the IPv6 literal Host \<open>[::1]:8080\<close> the split at
  every colon gives \<open>SERVER_NAME=[\<close> and an empty \<open>SERVER_PORT\<close>, not \<open>[::1]\<close> and
  \<open>8080\<close>.
\<close>

theorem make_env_ipv6_counterexample:
  "make_env cgi1 (req1\<lparr>Host := ''[::1]:8080''\<rparr>) =
     Inr [''SERVER_PROTOCOL=HTTP/2'', ''LANG=C'',
          ''SERVER_PROTOCOL=HTTP/1.1'', ''GATEWAY_INTERFACE=CGI/1.1'', ''PATH_INFO=/report'',
          ''REQUEST_METHOD=GET'', ''QUERY_STRING=x=1'', ''CONTENT_LENGTH=0'',
          ''SERVER_NAME=['', ''SERVER_PORT='',
          ''X_FOO=a'', ''HTTP_X_FOO=a'', ''X_FOO=b'', ''HTTP_X_FOO=b'',
          ''ACCEPT=*/*'', ''HTTP_ACCEPT=*/*'']"
  by code_simp

lemma Getenv_cgi_env:
  "map (Getenv (cgi_env r))
     [''SERVER_PROTOCOL'', ''GATEWAY_INTERFACE'', ''PATH_INFO'', ''REQUEST_METHOD'',
      ''QUERY_STRING'', ''CONTENT_LENGTH'', ''SERVER_NAME'', ''SERVER_PORT''] =
   [Some ''HTTP/1.1'', Some ''CGI/1.1'', Some (Path r), Some (Method r), Some (RawQuery r),
    Some (Itoa (ContentLength r)), Some (host_name (Host r)), Some (host_port (Host r))]"
  by (simp add: Getenv_def cgi_env_def env_key_def env_val_def)

text \<open>
  C8, as amended. The fixed entries come first in the list, so they are the
  earliest assignment: under a name the subprocess sees the header entry if there
  is one, else the CGI entry if the name is one of the eight (each of which the
  CGI entries define), else the fixed entry.
\<close>

theorem make_env_last_wins:
  "make_env self r = Inr (envs self @ cgi_env r @ header_env (Header r))
   \<and> Getenv (envs self @ cgi_env r @ header_env (Header r)) k =
       (case Getenv (header_env (Header r)) k of
          Some v \<Rightarrow> Some v
        | None \<Rightarrow> (case Getenv (cgi_env r) k of
                     Some v \<Rightarrow> Some v
                   | None \<Rightarrow> Getenv (envs self) k))
   \<and> map (Getenv (cgi_env r))
         [''SERVER_PROTOCOL'', ''GATEWAY_INTERFACE'', ''PATH_INFO'', ''REQUEST_METHOD'',
          ''QUERY_STRING'', ''CONTENT_LENGTH'', ''SERVER_NAME'', ''SERVER_PORT''] =
       [Some ''HTTP/1.1'', Some ''CGI/1.1'', Some (Path r), Some (Method r), Some (RawQuery r),
        Some (Itoa (ContentLength r)), Some (host_name (Host r)), Some (host_port (Host r))]"
proof -
  have "Getenv (envs self @ cgi_env r @ header_env (Header r)) k =
       (case Getenv (header_env (Header r)) k of
          Some v \<Rightarrow> Some v
        | None \<Rightarrow> (case Getenv (cgi_env r) k of
                     Some v \<Rightarrow> Some v
                   | None \<Rightarrow> Getenv (envs self) k))"
    by (simp only: Getenv_append split: option.splits) simp
  then show ?thesis
    using make_env_eq [of self r] Getenv_cgi_env [of r] by blast
qed

text \<open>
  Counterexample to C8 as stated: the fixed entry \<open>SERVER_PROTOCOL=HTTP/2\<close> is in the
  configuration, and the subprocess sees \<open>SERVER_PROTOCOL=HTTP/1.1\<close>.
\<close>

theorem fixed_env_loses_counterexample:
  "envs cgi1 = [''SERVER_PROTOCOL=HTTP/2'', ''LANG=C'']
   \<and> make_env cgi1 req1 =
       Inr [''SERVER_PROTOCOL=HTTP/2'', ''LANG=C'',
            ''SERVER_PROTOCOL=HTTP/1.1'', ''GATEWAY_INTERFACE=CGI/1.1'', ''PATH_INFO=/report'',
            ''REQUEST_METHOD=GET'', ''QUERY_STRING=x=1'', ''CONTENT_LENGTH=0'',
            ''SERVER_NAME=api.example.com'', ''SERVER_PORT=80'',
            ''X_FOO=a'', ''HTTP_X_FOO=a'', ''X_FOO=b'', ''HTTP_X_FOO=b'',
            ''ACCEPT=*/*'', ''HTTP_ACCEPT=*/*'']
   \<and> Getenv [''SERVER_PROTOCOL=HTTP/2'', ''LANG=C'',
            ''SERVER_PROTOCOL=HTTP/1.1'', ''GATEWAY_INTERFACE=CGI/1.1'', ''PATH_INFO=/report'',
            ''REQUEST_METHOD=GET'', ''QUERY_STRING=x=1'', ''CONTENT_LENGTH=0'',
            ''SERVER_NAME=api.example.com'', ''SERVER_PORT=80'',
            ''X_FOO=a'', ''HTTP_X_FOO=a'', ''X_FOO=b'', ''HTTP_X_FOO=b'',
            ''ACCEPT=*/*'', ''HTTP_ACCEPT=*/*''] ''SERVER_PROTOCOL'' = Some ''HTTP/1.1''"
  by code_simp


section \<open>Output translator: properties\<close>

subsection \<open>The separator search\<close>












subsection \<open>The header lines\<close>

lemma index_last: "s \<noteq> [] \<Longrightarrow> index s (int (length s) - 1) = Inr (last s)"
  by (simp add: index_def last_conv_nth nat_diff_distrib')

lemma header_line_eq:
  "header_line s (x, w) =
     (if s = [] then Inl IndexOutOfRange
      else Inr (case line_status s of Some y \<Rightarrow> y | None \<Rightarrow> x,
                case line_header s of Some (k, v) \<Rightarrow> Header_Set k v w | None \<Rightarrow> w))"
proof (cases "s = []")
  case True
  then show ?thesis by (simp add: header_line_def index_def)
next
  case False
  define s' where "s' = strip_cr s"
  have s': "(if last s = CR then take (length s - 1) s else s) = s'"
    using False by (simp add: s'_def strip_cr_def)
  have 1: "header_line s (x, w) =
      (case SplitN2 s' (CHR '':'') of
         p0 # p1 # _ \<Rightarrow>
           if ToLower (Trim p0 (CHR '' '')) = ''status'' then
             (case Atoi (Trim p1 (CHR '' '')) of Some y \<Rightarrow> Inr (y, w) | None \<Rightarrow> Inr (x, w))
           else Inr (x, Header_Set (Trim p0 (CHR '' '')) (Trim p1 (CHR '' '')) w)
       | _ \<Rightarrow> (case status_re s' of Some t \<Rightarrow> Inr (ParseInt16 t, w) | None \<Rightarrow> Inr (x, w)))"
    unfolding header_line_def by (simp only: index_last [OF False] Let_def s' prod.case sum.case)
  show ?thesis
  proof (cases "SplitN2 s' (CHR '':'')")
    case Nil
    then show ?thesis
      using False unfolding 1 line_status_def line_header_def s'_def [symmetric]
      by (cases "status_re s'") simp_all
  next
    case (Cons p0 ps)
    show ?thesis
    proof (cases ps)
      case Nil
      with Cons show ?thesis
        using False unfolding 1 line_status_def line_header_def s'_def [symmetric]
        by (cases "status_re s'") simp_all
    next
      case (Cons p1 ps')
      with \<open>SplitN2 s' (CHR '':'') = p0 # ps\<close> have sp: "SplitN2 s' (CHR '':'') = p0 # p1 # ps'"
        by simp
      show ?thesis
      proof (cases "ToLower (Trim p0 (CHR '' '')) = ''status''")
        case True
        then show ?thesis
          using False unfolding 1 line_status_def line_header_def s'_def [symmetric] sp
          by (cases "Atoi (Trim p1 (CHR '' ''))") simp_all
      next
        case False
        with \<open>s \<noteq> []\<close> show ?thesis
          unfolding 1 line_status_def line_header_def s'_def [symmetric] sp
          by simp
      qed
    qed
  qed
qed

lemma header_lines_eq:
  "[] \<notin> set ls \<Longrightarrow>
   header_lines ls (x, w) =
     Inr (last_status x ls, w\<lparr>res_sets := res_sets w @ List.map_filter line_header ls\<rparr>)"
proof (induction ls arbitrary: x w)
  case Nil
  show ?case by (simp add: last_status_def List.map_filter_simps)
next
  case (Cons s ls)
  then have s: "s \<noteq> []" and ls: "[] \<notin> set ls" by auto
  show ?case
    using s Cons.IH [OF ls]
    by (simp add: header_line_eq last_status_def List.map_filter_simps Header_Set_def
        split: option.splits)
qed

lemma header_lines_panic:
  "[] \<in> set ls \<Longrightarrow> header_lines ls xw = Inl IndexOutOfRange"
proof (induction ls arbitrary: xw)
  case Nil
  then show ?case by simp
next
  case (Cons s ls)
  obtain x w where xw: "xw = (x, w)" by (cases xw)
  show ?case
  proof (cases "s = []")
    case True
    then show ?thesis by (simp add: xw header_line_eq)
  next
    case False
    with Cons.prems have "[] \<in> set ls" by auto
    from Cons.IH [OF this] False show ?thesis by (simp add: xw header_line_eq)
  qed
qed

lemma line_header_not_status:
  "line_header s = Some (k, v) \<Longrightarrow> ToLower k \<noteq> ''status''"
  by (auto simp: line_header_def split: list.splits if_splits)

lemma header_lines_sent:
  "header_lines ls (x, w) = Inr (x', w') \<Longrightarrow> sent w' = sent w"
proof (induction ls arbitrary: x w)
  case Nil
  then show ?case by simp
next
  case (Cons s ls)
  show ?case
  proof (cases "s = []")
    case True
    with Cons.prems show ?thesis by (simp add: header_line_eq)
  next
    case False
    define y where "y = (case line_status s of Some y \<Rightarrow> y | None \<Rightarrow> x)"
    define u where "u = (case line_header s of Some (k, v) \<Rightarrow> Header_Set k v w | None \<Rightarrow> w)"
    have hl: "header_line s (x, w) = Inr (y, u)"
      using False by (simp add: header_line_eq y_def u_def)
    have "sent u = sent w"
      by (simp add: u_def sent_def Header_Set_def split: option.splits)
    moreover from Cons.prems hl have "header_lines ls (y, u) = Inr (x', w')" by simp
    from Cons.IH [OF this] have "sent w' = sent u" .
    ultimately show ?thesis by simp
  qed
qed

lemma header_lines_writes:
  "header_lines ls (x, w) = Inr (x', w') \<Longrightarrow>
     res_writes w' = res_writes w \<and> res_status w' = res_status w"
  using header_lines_sent [of ls x w x' w'] by (simp add: sent_def)

lemma WriteHeader_sent:
  "WriteHeader x w = Inr w' \<Longrightarrow> res_writes w' = res_writes w \<and> res_sets w' = res_sets w"
  by (auto simp: WriteHeader_def split: option.splits if_splits)

subsection \<open>One turn of the loop\<close>



lemma piping_step_stopped:
  assumes "stopped ctx" and "piping_step ev (st, ctx) = Inr (st', ctx')"
  shows "stopped ctx' \<and> sent (res ctx') = sent (res ctx)"
  using assms
  by (auto simp: piping_step_def Let_def IsStopped_def
      split: if_splits option.splits sum.splits prod.splits dest: header_lines_sent)

lemma piping_step_failed_write:
  assumes "piping_step ev (st, ctx) = Inr (st', ctx')"
    and "res_writes (res ctx') \<noteq> res_writes (res ctx)"
    and "ev_write ev \<noteq> WriteOk"
  shows "stop st' \<and> res_status (res ctx') \<noteq> None"
  using assms
  by (auto simp: piping_step_def Let_def IsStopped_def Write_def
      split: if_splits option.splits sum.splits prod.splits
      dest!: header_lines_writes WriteHeader_sent)

text \<open>
  Whatever a turn does, the calls of \<open>Header().Set\<close> it adds are never for a name
  that is \<open>Status\<close> in any letter case.
\<close>

lemma header_lines_sets:
  assumes "header_lines ls (x, w) = Inr (x', w')"
  shows "res_sets w' = res_sets w @ List.map_filter line_header ls"
proof (cases "[] \<in> set ls")
  case True
  from header_lines_panic [OF this, of "(x, w)"] assms show ?thesis by simp
next
  case False
  from header_lines_eq [OF this, of x w] assms show ?thesis by auto
qed

lemma line_headers_not_status:
  "list_all (\<lambda>(k, v). ToLower k \<noteq> ''status'') (List.map_filter line_header ls)"
  by (auto simp: list_all_iff List.map_filter_def dest: line_header_not_status)

lemma piping_step_sets:
  assumes "piping_step ev (st, ctx) = Inr (st', ctx')"
  shows "\<exists>new. res_sets (res ctx') = res_sets (res ctx) @ new
           \<and> list_all (\<lambda>(k, v). ToLower k \<noteq> ''status'') new"
proof -
  have "res_sets (res ctx') = res_sets (res ctx)
      \<or> (\<exists>ls. res_sets (res ctx') = res_sets (res ctx) @ List.map_filter line_header ls)"
    using assms
    by (auto simp: piping_step_def Let_def IsStopped_def Write_def
        split: if_splits option.splits sum.splits prod.splits
        dest!: header_lines_sets WriteHeader_sent)
  then show ?thesis
  proof
    assume "res_sets (res ctx') = res_sets (res ctx)"
    then have "res_sets (res ctx') = res_sets (res ctx) @ []
       \<and> list_all (\<lambda>(k, v). ToLower k \<noteq> ''status'') []" by simp
    then show ?thesis by blast
  next
    assume "\<exists>ls. res_sets (res ctx') = res_sets (res ctx) @ List.map_filter line_header ls"
    then show ?thesis using line_headers_not_status by blast
  qed
qed

subsection \<open>Status and headers of a header block in the first chunk\<close>




text \<open>
  A \<open>Status\<close> value with a reason phrase after the code is what \<open>status_with_text\<close>
  leaves out. The value is given to \<open>Atoi\<close> whole, while the status-line path takes
  the code out of \<open>HTTP/1.1 404 Not Found\<close>: on the chunk
  \<open>Status: 404 Not Found CRLF X-Foo: bar CRLF CRLF body\<close> the status that goes out is
  200, where a CGI program means 404.
\<close>

lemma status_with_reason_phrase_ignored:
  "response_of (piping_step
     (chunk (''Status: 404 Not Found'' @ [CR, LF] @ ''X-Foo: bar'' @ [CR, LF, CR, LF] @ ''body''))
     (piping0, ctx0)) =
   Inr \<lparr>res_status = Some 200, res_info = [], res_sets = [(''X-Foo'', ''bar'')], res_writes = [(''body'', WriteOk)]\<rparr>"
  by code_simp

text \<open>
  An informational code is sent as such and is not the status of the response:
  after \<open>Status: 103\<close> the body goes out under status 200.
\<close>

lemma informational_status_not_committed:
  "response_of (piping_step (chunk (''Status: 103'' @ [LF, LF] @ ''hello'')) (piping0, ctx0)) =
     Inr \<lparr>res_status = Some 200, res_info = [103], res_sets = [],
          res_writes = [(''hello'', WriteOk)]\<rparr>"
  by code_simp

subsection \<open>A separator split between reads\<close>

lemma eoh_match_no_separator: "\<not> starts_with_separator t \<Longrightarrow> eoh_match t = None"
  by (auto simp: eoh_match_def lf_def opt_cr_def starts_with_separator_def
      split: list.splits if_splits option.splits)

lemma FindIndex_from_no_separator: "\<not> holds_separator d \<Longrightarrow> FindIndex_from p d = None"
proof (induction d arbitrary: p)
  case Nil
  show ?case by simp
next
  case (Cons c cs)
  then have "eoh_match (c # cs) = None" and "\<not> holds_separator cs"
    by (simp_all add: eoh_match_no_separator)
  with Cons.IH show ?case by simp
qed

text \<open>\<open>FindIndex\<close> finds a match exactly in the texts that hold a separator.\<close>

lemma eoh_match_separator: "starts_with_separator t \<Longrightarrow> eoh_match t \<noteq> None"
  by (auto simp: eoh_match_def lf_def opt_cr_def starts_with_separator_def
      split: list.splits if_splits option.splits)

lemma FindIndex_from_separator: "holds_separator d \<Longrightarrow> FindIndex_from p d \<noteq> None"
proof (induction d arbitrary: p)
  case Nil
  then show ?case by simp
next
  case (Cons c cs)
  show ?case
  proof (cases "eoh_match (c # cs)")
    case None
    with Cons.prems eoh_match_separator [of "c # cs"] have "holds_separator cs" by auto
    from Cons.IH [OF this] None show ?thesis by simp
  next
    case (Some r)
    then show ?thesis by simp
  qed
qed

lemma FindIndex_iff_holds_separator: "FindIndex d \<noteq> None \<longleftrightarrow> holds_separator d"
  by (cases "holds_separator d")
     (simp_all add: FindIndex_def FindIndex_from_separator FindIndex_from_no_separator)







text \<open>
  What the statement leaves out: \<open>FindIndex\<close> is given the whole buffer, not the
  bytes just read as every other use of the buffer is, so a LF at the end of a
  chunk and a LF left behind it by an earlier, longer read are taken for a
  separator that the output does not hold.
\<close>

lemma stale_bytes_complete_a_separator:
  "response_of (piping_loop
     [chunk (''abcd'' @ [LF] @ ''ef''), chunk (''K:v'' @ [LF])] (piping0, ctx0)) =
   Inr \<lparr>res_status = Some 200, res_info = [], res_sets = [(''efK'', ''v'')], res_writes = []\<rparr>"
  by code_simp

subsection \<open>Faults\<close>

text \<open>
  C3. The first chunk \<open>LF LF body\<close> has a separator at offset 0, so the header bytes
  are empty and their only line is the empty string: \<open>s[len(s)-1]\<close> panics, in the
  goroutine of the piping routine.
\<close>

theorem empty_header_line_panics:
  "response_of (piping_step (chunk ([LF, LF] @ ''body'')) (piping0, ctx0)) = Inl IndexOutOfRange"
  by code_simp

text \<open>A status outside 100 .. 999 makes \<open>WriteHeader\<close> panic.\<close>

lemma status_out_of_range_panics:
  "response_of (piping_step (chunk (''Status: 5'' @ [LF, LF])) (piping0, ctx0)) =
     Inl InvalidWriteHeaderCode"
  by code_simp

subsection \<open>Body bytes of the chunk that holds the separator\<close>

text \<open>
  C5. In the chunk \<open>A: b LF LF X\<close> of 7 bytes the separator ends at offset 6 and one
  body byte follows. The guard \<open>idx[1] < n-1\<close> is \<open>6 < 6\<close>: the status is committed
  and the byte is never written.
\<close>

theorem single_body_byte_dropped:
  "response_of (piping_step (chunk (''A: b'' @ [LF, LF] @ ''X'')) (piping0, ctx0)) =
     Inr \<lparr>res_status = Some 200, res_info = [], res_sets = [(''A'', ''b'')], res_writes = []\<rparr>"
  by code_simp

subsection \<open>After the end of the response\<close>

lemma End_stopped: "stopped ctx \<Longrightarrow> End s ctx = Inr ctx"
  by (simp add: End_def)

lemma End_sets_stopped: "End s ctx = Inr ctx' \<Longrightarrow> stopped ctx'"
  by (auto simp: End_def split: if_splits sum.splits)

lemma perform_final:
  assumes "stopped ctx \<or> (stop st \<and> res_status (res ctx) \<noteq> None)"
    and "perform a (st, ctx) = Inr (st', ctx')"
  shows "(stopped ctx' \<or> (stop st' \<and> res_status (res ctx') \<noteq> None))
       \<and> sent (res ctx') = sent (res ctx)"
proof (cases a)
  case (Iterate ev)
  show ?thesis
  proof (cases "stop st")
    case True
    with assms Iterate show ?thesis by auto
  next
    case False
    with assms Iterate have "stopped ctx" and "piping_step ev (st, ctx) = Inr (st', ctx')"
      by auto
    from piping_step_stopped [OF this] show ?thesis by simp
  qed
next
  case (CallEnd s)
  show ?thesis
  proof (cases "stopped ctx")
    case True
    with assms CallEnd show ?thesis by (auto simp: End_stopped)
  next
    case False
    with assms have "stop st" and "res_status (res ctx) \<noteq> None" by auto
    with assms(2) CallEnd False show ?thesis
      by (auto simp: End_def WriteHeader_def split: option.splits sum.splits)
  qed
qed

lemma perform_all_final:
  assumes "stopped ctx \<or> (stop st \<and> res_status (res ctx) \<noteq> None)"
    and "perform_all acts (st, ctx) = Inr (st', ctx')"
  shows "sent (res ctx') = sent (res ctx)"
  using assms
proof (induction acts arbitrary: st ctx)
  case Nil
  then show ?case by simp
next
  case (Cons a acts)
  from Cons.prems(2) obtain st1 ctx1 where p: "perform a (st, ctx) = Inr (st1, ctx1)"
    and r: "perform_all acts (st1, ctx1) = Inr (st', ctx')"
    by (auto split: sum.splits)
  from perform_final [OF Cons.prems(1) p]
  have i: "stopped ctx1 \<or> (stop st1 \<and> res_status (res ctx1) \<noteq> None)"
    and s: "sent (res ctx1) = sent (res ctx)" by simp_all
  from Cons.IH [OF i r] s show ?case by simp
qed

text \<open>
  C4, as amended. \<open>End\<close> sets \<open>stopped\<close>, and on a stopped context every later \<open>End\<close>
  changes nothing. Once the context is stopped, or the piping loop has ended with
  the status line out, no interleaving of turns of the piping routine and calls of
  \<open>End\<close> sends anything more. A turn whose \<open>Write\<close> fails ends the loop, with the
  status line out.
\<close>

theorem terminated_response_is_final:
  "(End s c = Inr c' \<longrightarrow> stopped c' \<and> End s' c' = Inr c')
   \<and> (stopped ctx \<or> (stop st \<and> res_status (res ctx) \<noteq> None) \<longrightarrow>
        perform_all acts (st, ctx) = Inr (st', ctx') \<longrightarrow> sent (res ctx') = sent (res ctx))
   \<and> (piping_step ev (q, d) = Inr (q', d')
        \<and> res_writes (res d') \<noteq> res_writes (res d) \<and> ev_write ev \<noteq> WriteOk \<longrightarrow>
        stop q' \<and> res_status (res d') \<noteq> None)"
  using End_sets_stopped [of s c c'] End_stopped [of c' s']
    perform_all_final [of ctx st acts st' ctx']
    piping_step_failed_write [of ev q d q' d']
  by blast

text \<open>
  Witness for C4: \<open>End(500)\<close> on a fresh context, then a header block, an \<open>End(404)\<close>
  and a body chunk; and a body chunk whose \<open>Write\<close> fails after two bytes.
\<close>

theorem terminated_response_is_final_witness:
  "End 500 ctx0 = Inr ended \<and> stopped ended \<and> End 404 ended = Inr ended
   \<and> (\<exists>st' ctx'.
        perform_all [Iterate (chunk (''X: y'' @ [LF, LF] @ ''body'')), CallEnd 404,
                     Iterate (chunk ''more'')] (piping0, ended) = Inr (st', ctx')
        \<and> sent (res ctx') = (Some 500, [], []))
   \<and> (\<exists>q' d'.
        piping_step \<lparr>ev_data = ''more'', ev_err = False, ev_write = WriteErr 2\<rparr> streaming = Inr (q', d')
        \<and> res_writes (res d') = [(''more'', WriteErr 2)] \<and> stop q' \<and> res_status (res d') \<noteq> None)"
proof -
  have e: "End 500 ctx0 = Inr ended"
    by (simp add: End_def ctx0_def WriteHeader_def ended_def)
  have s: "stopped ended" by (simp add: ended_def)
  define acts where "acts = [Iterate (chunk (''X: y'' @ [LF, LF] @ ''body'')), CallEnd 404,
                  Iterate (chunk ''more'')]"
  have "\<not> isl (perform_all acts (piping0, ended))"
    unfolding acts_def by code_simp
  then obtain r where "perform_all acts (piping0, ended) = Inr r"
    by (cases "perform_all acts (piping0, ended)") auto
  then obtain st' ctx' where p: "perform_all acts (piping0, ended) = Inr (st', ctx')"
    by (cases r) auto
  obtain q' d' where w:
    "piping_step \<lparr>ev_data = ''more'', ev_err = False, ev_write = WriteErr 2\<rparr>
       (fst streaming, snd streaming) = Inr (q', d')"
    and w': "res_writes (res d') = [(''more'', WriteErr 2)]"
    by (simp add: streaming_def piping_step_def Let_def IsStopped_def ctx0_def piping0_def
        Write_def stdout_Read_def)
  have se: "sent (res ended) = (Some 500, [], [])" by (simp add: sent_def ended_def)
  have n: "res_writes (res d') \<noteq> res_writes (res (snd streaming))"
    by (simp add: w' streaming_def)
  from terminated_response_is_final
    [of 500 ctx0 ended 404 ended piping0 acts st' ctx'
        "\<lparr>ev_data = ''more'', ev_err = False, ev_write = WriteErr 2\<rparr>"
        "fst streaming" "snd streaming" q' d']
    e s p w w' n se
  show ?thesis unfolding acts_def [symmetric] by auto
qed

text \<open>
  Counterexample to C4 as stated: \<open>SendBytes\<close> does not look at \<open>stopped\<close>; after
  \<open>End(500)\<close> it still writes.
\<close>

theorem send_after_end_counterexample:
  "map_sum id (SendBytes ''late'' WriteOk) (End 500 ctx0) =
     Inr \<lparr>params = [], stopped = True,
          res = \<lparr>res_status = Some 500, res_info = [], res_sets = [], res_writes = [(''late'', WriteOk)]\<rparr>\<rparr>"
  by (simp add: End_def ctx0_def WriteHeader_def SendBytes_def Write_def)

end
